theory Spec2Isabelle
  imports
    Main
    "HOL-Library.Sublist"
    "HOL-Library.AList"
    "HOL-Library.Char_ord"
    "HOL-Library.List_Lexorder"
begin

section \<open>The API-key authenticator of plugin.go\<close>

text \<open>
  A shallow embedding of \<^verbatim>\<open>plugin.go\<close>. Go strings are byte strings and are modelled
  as \<^typ>\<open>string\<close>; the empty string is what the matcher functions return for
  ``no match'', exactly as in the source. Writes to standard output (the
  \<^verbatim>\<open>fmt.Printf\<close> and \<^verbatim>\<open>os.Stdout.WriteString\<close> log lines) are not part of the
  modelled state.
\<close>

subsection \<open>Library functions used by the matcher\<close>

text \<open>
  \<^verbatim>\<open>strings.Contains(s, substr)\<close>: \<^verbatim>\<open>substr\<close> occurs in \<^verbatim>\<open>s\<close> at some position.
\<close>

fun strings_Contains :: "string \<Rightarrow> string \<Rightarrow> bool" where
  "strings_Contains [] substr = (substr = [])"
| "strings_Contains (c # cs) substr = (prefix substr (c # cs) \<or> strings_Contains cs substr)"

text \<open>
  The character class \<^verbatim>\<open>\s\<close> of Go's regexp syntax: tab, line feed, form feed,
  carriage return and space.
\<close>

definition isSpace :: "char \<Rightarrow> bool" where
  "isSpace c = (c = CHR 0x09 \<or> c = CHR 0x0A \<or> c = CHR 0x0C \<or> c = CHR 0x0D \<or> c = CHR '' '')"

text \<open>
  The regular expression \<^verbatim>\<open>Bearer\s(?P<key>[^$]+)\<close> tried at the start of a string:
  the literal \<^verbatim>\<open>Bearer\<close>, one character of \<^verbatim>\<open>\s\<close>, then the group \<^verbatim>\<open>key\<close>, the
  longest non-empty run of characters other than \<^verbatim>\<open>$\<close> (inside a bracket
  expression \<^verbatim>\<open>$\<close> is the dollar character, and the repetition is greedy). The
  result is the text of the group.
\<close>

definition matchHere :: "string \<Rightarrow> string option" where
  "matchHere s =
     (if take 6 s = ''Bearer'' then
        (case drop 6 s of
           [] \<Rightarrow> None
         | w # rest \<Rightarrow>
             if isSpace w \<and> takeWhile (\<lambda>c. c \<noteq> CHR ''$'') rest \<noteq> []
             then Some (takeWhile (\<lambda>c. c \<noteq> CHR ''$'') rest)
             else None)
      else None)"

text \<open>
  \<^verbatim>\<open>re.FindStringSubmatch(key)\<close> followed by the selection of the group \<^verbatim>\<open>key\<close>:
  the pattern is not anchored, so the leftmost position at which it matches is
  taken; \<open>None\<close> is the \<^verbatim>\<open>nil\<close> result.
\<close>

fun FindStringSubmatch :: "string \<Rightarrow> string option" where
  "FindStringSubmatch [] = None"
| "FindStringSubmatch (c # cs) =
     (case matchHere (c # cs) of
        Some k \<Rightarrow> Some k
      | None \<Rightarrow> FindStringSubmatch cs)"

subsection \<open>The matcher: \<^verbatim>\<open>contains\<close> and \<^verbatim>\<open>bearer\<close>\<close>

text \<open>
  \<^verbatim>\<open>contains(key, validKeys, exact)\<close>: the loop over \<^verbatim>\<open>validKeys\<close> returns the first
  entry that equals \<^verbatim>\<open>key\<close> (exact) or occurs in \<^verbatim>\<open>key\<close> (not exact), and the empty
  string after the loop.
\<close>

fun contains :: "string \<Rightarrow> string list \<Rightarrow> bool \<Rightarrow> string" where
  "contains key [] exact = []"
| "contains key (a # validKeys) exact =
     (if exact then
        (if a = key then a else contains key validKeys exact)
      else
        (if strings_Contains key a then a else contains key validKeys exact))"

definition bearer :: "string \<Rightarrow> string list \<Rightarrow> string" where
  "bearer key validKeys =
     (case FindStringSubmatch key of
        None \<Rightarrow> []
      | Some extractedKey \<Rightarrow> contains extractedKey validKeys True)"

subsection \<open>Go maps from strings to string slices\<close>

text \<open>
  \<^verbatim>\<open>http.Header\<close> and \<^verbatim>\<open>url.Values\<close> are both \<^verbatim>\<open>map[string][]string\<close>. The map is
  an association list with one entry per key: \<open>AList.update\<close> is the assignment
  \<^verbatim>\<open>m[k] = vs\<close>, \<open>AList.delete\<close> is \<^verbatim>\<open>delete(m, k)\<close>, and \<open>index m k\<close> is the read
  \<^verbatim>\<open>m[k]\<close>, the empty slice for a missing key. The order of the entries is not
  observed: \<^verbatim>\<open>Values.Encode\<close> sorts the keys.
\<close>

type_synonym gomap = "(string \<times> string list) list"

definition index :: "gomap \<Rightarrow> string \<Rightarrow> string list" where
  "index m k = (case map_of m k of None \<Rightarrow> [] | Some vs \<Rightarrow> vs)"

text \<open>The first element of a slice, the empty string when there is none.\<close>

definition first :: "string list \<Rightarrow> string" where
  "first vs = (case vs of [] \<Rightarrow> [] | v # _ \<Rightarrow> v)"

text \<open>\<open>addValue k m v\<close> is the statement \<^verbatim>\<open>m[k] = append(m[k], v)\<close>.\<close>

definition addValue :: "string \<Rightarrow> gomap \<Rightarrow> string \<Rightarrow> gomap" where
  "addValue k m v = AList.update k (index m k @ [v]) m"

subsection \<open>\<^verbatim>\<open>net/http\<close>: header maps\<close>

definition isLower :: "char \<Rightarrow> bool" where
  "isLower c = (CHR ''a'' \<le> c \<and> c \<le> CHR ''z'')"

definition isUpper :: "char \<Rightarrow> bool" where
  "isUpper c = (CHR ''A'' \<le> c \<and> c \<le> CHR ''Z'')"

definition isDigit :: "char \<Rightarrow> bool" where
  "isDigit c = (CHR ''0'' \<le> c \<and> c \<le> CHR ''9'')"

text \<open>The bytes of an HTTP token (RFC 7230), the valid bytes of a header name.\<close>

definition validHeaderFieldByte :: "char \<Rightarrow> bool" where
  "validHeaderFieldByte c =
     (isLower c \<or> isUpper c \<or> isDigit c \<or> c \<in> set ''!#$%&'' \<or> c = CHR 0x27 \<or>
      c \<in> set ''*+-.^_`|~'')"

definition toUpper :: "char \<Rightarrow> char" where
  "toUpper c = (if isLower c then char_of (of_char c - (32::nat)) else c)"

definition toLower :: "char \<Rightarrow> char" where
  "toLower c = (if isUpper c then char_of (of_char c + (32::nat)) else c)"

text \<open>
  \<^verbatim>\<open>textproto.CanonicalMIMEHeaderKey\<close>: the first letter and every letter after a
  hyphen in upper case, the other letters in lower case; a name with a byte that
  is not valid in a header name is returned as it is.
\<close>

fun canonical :: "bool \<Rightarrow> string \<Rightarrow> string" where
  "canonical upper [] = []"
| "canonical upper (c # cs) =
     (if upper then toUpper c else toLower c) # canonical (c = CHR ''-'') cs"

definition CanonicalMIMEHeaderKey :: "string \<Rightarrow> string" where
  "CanonicalMIMEHeaderKey s = (if list_all validHeaderFieldByte s then canonical True s else s)"

definition Header_Get :: "gomap \<Rightarrow> string \<Rightarrow> string" where
  "Header_Get h key = first (index h (CanonicalMIMEHeaderKey key))"

definition Header_Del :: "gomap \<Rightarrow> string \<Rightarrow> gomap" where
  "Header_Del h key = AList.delete (CanonicalMIMEHeaderKey key) h"

definition Header_Add :: "gomap \<Rightarrow> string \<Rightarrow> string \<Rightarrow> gomap" where
  "Header_Add h key val = addValue (CanonicalMIMEHeaderKey key) h val"

subsection \<open>\<^verbatim>\<open>net/url\<close>: query strings\<close>

definition ishex :: "char \<Rightarrow> bool" where
  "ishex c = (isDigit c \<or> (CHR ''a'' \<le> c \<and> c \<le> CHR ''f'') \<or> (CHR ''A'' \<le> c \<and> c \<le> CHR ''F''))"

definition unhex :: "char \<Rightarrow> nat" where
  "unhex c =
     (if isDigit c then of_char c - 48
      else if CHR ''a'' \<le> c \<and> c \<le> CHR ''f'' then of_char c - 97 + 10
      else if CHR ''A'' \<le> c \<and> c \<le> CHR ''F'' then of_char c - 65 + 10
      else 0)"

text \<open>
  \<^verbatim>\<open>url.QueryUnescape\<close>: \<^verbatim>\<open>%XY\<close> becomes the byte with hexadecimal code \<^verbatim>\<open>XY\<close>, \<^verbatim>\<open>+\<close>
  becomes a space; a \<^verbatim>\<open>%\<close> that is not followed by two hexadecimal digits is an
  error (\<open>None\<close>).
\<close>

fun QueryUnescape :: "string \<Rightarrow> string option" where
  "QueryUnescape [] = Some []"
| "QueryUnescape (c # s) =
     (if c = CHR ''%'' then
        (case s of
           a # b # rest \<Rightarrow>
             if ishex a \<and> ishex b
             then map_option ((#) (char_of (unhex a * 16 + unhex b))) (QueryUnescape rest)
             else None
         | _ \<Rightarrow> None)
      else if c = CHR ''+'' then map_option ((#) CHR '' '') (QueryUnescape s)
      else map_option ((#) c) (QueryUnescape s))"

text \<open>
  \<^verbatim>\<open>url.QueryEscape\<close>: letters, digits and \<^verbatim>\<open>-_.~\<close> are kept, a space becomes \<^verbatim>\<open>+\<close>,
  every other byte becomes \<^verbatim>\<open>%XY\<close> with upper-case hexadecimal digits.
\<close>

definition shouldEscape :: "char \<Rightarrow> bool" where
  "shouldEscape c = (\<not> (isLower c \<or> isUpper c \<or> isDigit c \<or> c \<in> set ''-_.~''))"

definition upperhex :: "nat \<Rightarrow> char" where
  "upperhex n = ''0123456789ABCDEF'' ! n"

definition escapeByte :: "char \<Rightarrow> string" where
  "escapeByte c =
     (if c = CHR '' '' then ''+''
      else if shouldEscape c
      then [CHR ''%'', upperhex (of_char c div 16), upperhex (of_char c mod 16)]
      else [c])"

definition QueryEscape :: "string \<Rightarrow> string" where
  "QueryEscape s = concat (map escapeByte s)"

text \<open>
  \<^verbatim>\<open>strings.Cut(s, sep)\<close> for a separator of one byte: the text before the first
  separator and the text after it; all of \<^verbatim>\<open>s\<close> and the empty string when there
  is no separator.
\<close>

fun Cut :: "string \<Rightarrow> char \<Rightarrow> string \<times> string" where
  "Cut [] sep = ([], [])"
| "Cut (c # cs) sep = (if c = sep then ([], cs) else (c # fst (Cut cs sep), snd (Cut cs sep)))"

text \<open>
  One iteration of the loop of \<^verbatim>\<open>url.ParseQuery\<close> on the text between two \<^verbatim>\<open>&\<close>:
  a pair with a semicolon, an empty pair and a pair whose key or value does not
  unescape are skipped; otherwise the value is appended to the values of the key.
\<close>

definition parsePair :: "gomap \<Rightarrow> string \<Rightarrow> gomap" where
  "parsePair m kv =
     (if CHR '';'' \<in> set kv then m
      else if kv = [] then m
      else
        (case QueryUnescape (fst (Cut kv CHR ''='')) of
           None \<Rightarrow> m
         | Some key \<Rightarrow>
             (case QueryUnescape (snd (Cut kv CHR ''='')) of
                None \<Rightarrow> m
              | Some val \<Rightarrow> addValue key m val)))"

function parseQuery :: "gomap \<Rightarrow> string \<Rightarrow> gomap" where
  "parseQuery m [] = m"
| "parseQuery m (c # cs) =
     parseQuery (parsePair m (fst (Cut (c # cs) CHR ''&''))) (snd (Cut (c # cs) CHR ''&''))"
  by pat_completeness auto
termination
proof (relation "measure (\<lambda>(m, query). length query)")
  show "wf (measure (\<lambda>(m, query). length query))" by simp
next
  fix m :: gomap and c :: char and cs :: string
  have "length (snd (Cut cs CHR ''&'')) \<le> length cs"
    by (induction cs) auto
  then show "((parsePair m (fst (Cut (c # cs) CHR ''&'')), snd (Cut (c # cs) CHR ''&'')), (m, c # cs))
        \<in> measure (\<lambda>(m, query). length query)"
    by simp
qed

text \<open>\<^verbatim>\<open>(*URL).Query()\<close> parses \<^verbatim>\<open>RawQuery\<close> and drops the error of the parser.\<close>

definition Query :: "string \<Rightarrow> gomap" where
  "Query rawQuery = parseQuery [] rawQuery"

definition Values_Get :: "gomap \<Rightarrow> string \<Rightarrow> string" where
  "Values_Get v key = first (index v key)"

definition Values_Del :: "gomap \<Rightarrow> string \<Rightarrow> gomap" where
  "Values_Del v key = AList.delete key v"

text \<open>
  \<^verbatim>\<open>Values.Encode()\<close>: the keys in sorted order, and for each key its values in
  order, written as \<^verbatim>\<open>key=value\<close> with both sides escaped, an \<^verbatim>\<open>&\<close> before every
  pair but the first.
\<close>

definition writePair :: "string \<Rightarrow> string \<Rightarrow> string \<Rightarrow> string" where
  "writePair keyEscaped buf v =
     (if buf \<noteq> [] then buf @ ''&'' else buf) @ keyEscaped @ ''='' @ QueryEscape v"

definition Values_Encode :: "gomap \<Rightarrow> string" where
  "Values_Encode v =
     foldl (\<lambda>buf k. foldl (writePair (QueryEscape k)) buf (index v k)) []
       (sort (remdups (map fst v)))"

subsection \<open>\<^verbatim>\<open>encoding/json\<close>: the rejection body\<close>

record Response =
  Message :: string
  StatusCode :: int

text \<open>
  A JSON string literal as \<^verbatim>\<open>encoding/json\<close> writes it with HTML escaping on (the
  default of an \<^verbatim>\<open>Encoder\<close>): the quote and the backslash behind a backslash, the
  control characters as their short escapes or as \<^verbatim>\<open>\u00XY\<close>, and \<^verbatim>\<open><\<close>, \<^verbatim>\<open>>\<close>, \<^verbatim>\<open>&\<close>
  as \<^verbatim>\<open>\u00XY\<close>; every other ASCII byte is copied. The text that the handler
  encodes is ASCII; bytes from \<^verbatim>\<open>0x80\<close> on are copied here, which is what the encoder
  does for valid UTF-8 other than the two line separators.
\<close>

definition lowerhex :: "nat \<Rightarrow> char" where
  "lowerhex n = ''0123456789abcdef'' ! n"

definition jsonByte :: "char \<Rightarrow> string" where
  "jsonByte c =
     (if c = CHR 0x22 \<or> c = CHR 0x5C then [CHR 0x5C, c]
      else if c = CHR 0x08 then [CHR 0x5C, CHR ''b'']
      else if c = CHR 0x0C then [CHR 0x5C, CHR ''f'']
      else if c = CHR 0x0A then [CHR 0x5C, CHR ''n'']
      else if c = CHR 0x0D then [CHR 0x5C, CHR ''r'']
      else if c = CHR 0x09 then [CHR 0x5C, CHR ''t'']
      else if c < CHR 0x20 \<or> c = CHR ''<'' \<or> c = CHR ''>'' \<or> c = CHR ''&''
      then [CHR 0x5C, CHR ''u'', CHR ''0'', CHR ''0'',
            lowerhex (of_char c div 16), lowerhex (of_char c mod 16)]
      else [c])"

definition jsonString :: "string \<Rightarrow> string" where
  "jsonString s = [CHR 0x22] @ concat (map jsonByte s) @ [CHR 0x22]"

fun digits :: "nat \<Rightarrow> string" where
  "digits n =
     (if n < 10 then [char_of (48 + n)]
      else digits (n div 10) @ [char_of (48 + n mod 10)])"

declare digits.simps [simp del]

definition Itoa :: "int \<Rightarrow> string" where
  "Itoa i = (if i < 0 then CHR ''-'' # digits (nat (- i)) else digits (nat i))"

text \<open>
  \<^verbatim>\<open>json.NewEncoder(rw).Encode(response)\<close> for a \<^verbatim>\<open>Response\<close>: the two fields under
  the names of their \<^verbatim>\<open>json\<close> tags, in the order of the struct, followed by the
  newline that \<^verbatim>\<open>Encode\<close> writes after every value.
\<close>

definition Encode :: "Response \<Rightarrow> string" where
  "Encode r =
     [CHR ''{''] @ jsonString ''message'' @ '':'' @ jsonString (Message r) @ '','' @
     jsonString ''status_code'' @ '':'' @ Itoa (StatusCode r) @ [CHR ''}''] @ [CHR 0x0A]"

definition StatusForbidden :: int where
  "StatusForbidden = 403"

subsection \<open>Configuration and construction\<close>

record Config =
  AuthenticationHeader :: bool
  AuthenticationHeaderName :: string
  BearerHeader :: bool
  BearerHeaderName :: string
  QueryParam :: bool
  QueryParamName :: string
  PathSegment :: bool
  RemoveQueryParamsOnSuccess :: bool
  Keys :: "string list"
  RemoveHeadersOnSuccess :: bool
  InternalForwardHeaderName :: string
  InternalErrorRoute :: string

definition CreateConfig :: Config where
  "CreateConfig =
     \<lparr> AuthenticationHeader = True,
       AuthenticationHeaderName = ''X-API-KEY'',
       BearerHeader = True,
       BearerHeaderName = ''Authorization'',
       QueryParam = True,
       QueryParamName = ''token'',
       PathSegment = True,
       RemoveQueryParamsOnSuccess = True,
       Keys = [],
       RemoveHeadersOnSuccess = True,
       InternalForwardHeaderName = [],
       InternalErrorRoute = [] \<rparr>"

text \<open>
  The handler. \<open>'h\<close> is the type of the downstream \<^verbatim>\<open>http.Handler\<close>, which the
  plugin only stores and calls; the field \<^verbatim>\<open>next\<close> is \<open>next_handler\<close> here.
\<close>

record 'h KeyAuth =
  next_handler :: 'h
  authenticationHeader :: bool
  authenticationHeaderName :: string
  bearerHeader :: bool
  bearerHeaderName :: string
  queryParam :: bool
  queryParamName :: string
  pathSegment :: bool
  removeQueryParamsOnSuccess :: bool
  keys :: "string list"
  removeHeadersOnSuccess :: bool
  internalForwardHeaderName :: string
  internalErrorRoute :: string

text \<open>
  \<^verbatim>\<open>New(ctx, next, config, name)\<close> returns the error (\<open>Inl\<close>, with the text given to
  \<^verbatim>\<open>fmt.Errorf\<close>) or the handler (\<open>Inr\<close>).
\<close>

definition New :: "'c \<Rightarrow> 'h \<Rightarrow> Config \<Rightarrow> string \<Rightarrow> string + 'h KeyAuth" where
  "New ctx nxt config name =
     (if length (Keys config) = 0 then Inl ''must specify at least one valid key''
      else if \<not> AuthenticationHeader config \<and> \<not> BearerHeader config \<and>
              \<not> QueryParam config \<and> \<not> PathSegment config
      then Inl ''at least one method must be true''
      else Inr
        \<lparr> next_handler = nxt,
          authenticationHeader = AuthenticationHeader config,
          authenticationHeaderName = AuthenticationHeaderName config,
          bearerHeader = BearerHeader config,
          bearerHeaderName = BearerHeaderName config,
          queryParam = QueryParam config,
          queryParamName = QueryParamName config,
          pathSegment = PathSegment config,
          removeQueryParamsOnSuccess = RemoveQueryParamsOnSuccess config,
          keys = Keys config,
          removeHeadersOnSuccess = RemoveHeadersOnSuccess config,
          internalForwardHeaderName = InternalForwardHeaderName config,
          internalErrorRoute = InternalErrorRoute config \<rparr>)"

subsection \<open>Requests, response writers and the state of one call\<close>

record URL =
  Path :: string
  RawQuery :: string

text \<open>
  The field \<^verbatim>\<open>RequestURI\<close> of a request is either the text received from the client
  or the result of \<^verbatim>\<open>(*URL).RequestURI()\<close> on a URL; the escaping that \<^verbatim>\<open>net/url\<close>
  applies to produce that text is not interpreted, the URL it was computed from
  is kept instead.
\<close>

datatype RequestURI = Received string | URL_RequestURI URL

record Request =
  Header :: gomap
  URL :: URL
  RequestURI :: RequestURI

text \<open>
  The \<^verbatim>\<open>http.ResponseWriter\<close> is an interface: what the handler does to it is the
  sequence of its calls. \<open>Header_Set k v\<close> is \<^verbatim>\<open>rw.Header().Set(k, v)\<close>.
\<close>

datatype rw_call = Header_Set string string | WriteHeader int | Write string

text \<open>
  The state threaded through \<^verbatim>\<open>ServeHTTP\<close>: the request (a pointer in the source,
  mutated in place), the calls made on the response writer so far, and the calls
  \<^verbatim>\<open>next.ServeHTTP(rw, req)\<close> made so far, each with the handler called and the
  request as it was handed over.
\<close>

record 'h state =
  req :: Request
  rw :: "rw_call list"
  served :: "('h \<times> Request) list"

subsection \<open>The handler: \<^verbatim>\<open>ok\<close> and \<^verbatim>\<open>ServeHTTP\<close>\<close>

definition ok :: "'h KeyAuth \<Rightarrow> 'h state \<Rightarrow> string \<Rightarrow> 'h state" where
  "ok ka s key =
     (let r1 = (if internalForwardHeaderName ka \<noteq> []
                then (req s)\<lparr>Header := Header_Add (Header (req s)) (internalForwardHeaderName ka) key\<rparr>
                else req s);
          r2 = r1\<lparr>RequestURI := URL_RequestURI (URL r1)\<rparr>
      in s\<lparr>req := r2, served := served s @ [(next_handler ka, r2)]\<rparr>)"

text \<open>
  \<^verbatim>\<open>ServeHTTP\<close> is a sequence of four blocks, each of which may return, followed by
  the rejection. A block is a function to \<open>'h state option\<close>: \<open>Some\<close> is the state at
  its \<^verbatim>\<open>return\<close>, \<open>None\<close> means that control falls through to the next statement
  (the blocks change nothing before they return).
\<close>

definition checkHeader :: "'h KeyAuth \<Rightarrow> 'h state \<Rightarrow> 'h state option" where
  "checkHeader ka s =
     (if authenticationHeader ka then
        (let matchedKey =
               contains (Header_Get (Header (req s)) (authenticationHeaderName ka)) (keys ka) True
         in if matchedKey \<noteq> [] then
              Some (ok ka
                (if removeHeadersOnSuccess ka
                 then s\<lparr>req := (req s)
                        \<lparr>Header := Header_Del (Header (req s)) (authenticationHeaderName ka)\<rparr>\<rparr>
                 else s)
                matchedKey)
            else None)
      else None)"

definition checkBearer :: "'h KeyAuth \<Rightarrow> 'h state \<Rightarrow> 'h state option" where
  "checkBearer ka s =
     (if bearerHeader ka then
        (let matchedKey = bearer (Header_Get (Header (req s)) (bearerHeaderName ka)) (keys ka)
         in if matchedKey \<noteq> [] then
              Some (ok ka
                (if removeHeadersOnSuccess ka
                 then s\<lparr>req := (req s)
                        \<lparr>Header := Header_Del (Header (req s)) (bearerHeaderName ka)\<rparr>\<rparr>
                 else s)
                matchedKey)
            else None)
      else None)"

definition checkQuery :: "'h KeyAuth \<Rightarrow> 'h state \<Rightarrow> 'h state option" where
  "checkQuery ka s =
     (if queryParam ka then
        (let qs = Query (RawQuery (URL (req s)));
             matchedKey = contains (Values_Get qs (queryParamName ka)) (keys ka) True
         in if matchedKey \<noteq> [] then
              (let qs' = (if removeQueryParamsOnSuccess ka
                          then Values_Del qs (queryParamName ka) else qs)
               in Some (ok ka
                    (s\<lparr>req := (req s)\<lparr>URL := (URL (req s))\<lparr>RawQuery := Values_Encode qs'\<rparr>\<rparr>\<rparr>)
                    matchedKey))
            else None)
      else None)"

definition checkPath :: "'h KeyAuth \<Rightarrow> 'h state \<Rightarrow> 'h state option" where
  "checkPath ka s =
     (if pathSegment ka then
        (let matchedKey = contains (Path (URL (req s))) (keys ka) False
         in if matchedKey \<noteq> [] then Some (ok ka s matchedKey) else None)
      else None)"

text \<open>The statements after the four blocks.\<close>

definition reject :: "'h KeyAuth \<Rightarrow> 'h state \<Rightarrow> 'h state" where
  "reject ka s =
     (if internalErrorRoute ka \<noteq> [] then
        s\<lparr>req := (req s)\<lparr>URL := (URL (req s))\<lparr>Path := internalErrorRoute ka, RawQuery := []\<rparr>\<rparr>\<rparr>
      else
        (let response = \<lparr>Message = ''Invalid or missing API Key'', StatusCode = StatusForbidden\<rparr>
         in s\<lparr>rw := rw s @
                [Header_Set ''Content-Type'' ''application/json; charset=utf-8'',
                 WriteHeader (StatusCode response),
                 Write (Encode response)]\<rparr>))"

definition ServeHTTP :: "'h KeyAuth \<Rightarrow> 'h state \<Rightarrow> 'h state" where
  "ServeHTTP ka s =
     (case checkHeader ka s of
        Some s' \<Rightarrow> s'
      | None \<Rightarrow>
          (case checkBearer ka s of
             Some s' \<Rightarrow> s'
           | None \<Rightarrow>
               (case checkQuery ka s of
                  Some s' \<Rightarrow> s'
                | None \<Rightarrow>
                    (case checkPath ka s of
                       Some s' \<Rightarrow> s'
                     | None \<Rightarrow> reject ka s))))"

subsection \<open>The wording of the specification\<close>

text \<open>
  The shape the specification gives for a bearer header value: \<^verbatim>\<open>Bearer\<close>, then one
  or more whitespace characters, then one or more characters up to the end of the
  string. A value has it exactly when it starts with \<^verbatim>\<open>Bearer\<close> and a whitespace
  character and has at least one character after them.
\<close>

definition spec_bearer_shape :: "string \<Rightarrow> bool" where
  "spec_bearer_shape h =
     (take 6 h = ''Bearer'' \<and> (case drop 6 h of w # c # r \<Rightarrow> isSpace w | _ \<Rightarrow> False))"

text \<open>The body the specification gives for the rejection response.\<close>

definition spec_rejection_body :: string where
  \<open>spec_rejection_body = ''{"message":"Invalid or missing API Key","status_code":403}''\<close>

text \<open>
  The value each method finds in a request, the empty string when it finds none,
  and whether an enabled method finds one.
\<close>

definition headerKey :: "'h KeyAuth \<Rightarrow> Request \<Rightarrow> string" where
  "headerKey ka r = contains (Header_Get (Header r) (authenticationHeaderName ka)) (keys ka) True"

definition bearerKey :: "'h KeyAuth \<Rightarrow> Request \<Rightarrow> string" where
  "bearerKey ka r = bearer (Header_Get (Header r) (bearerHeaderName ka)) (keys ka)"

definition queryKey :: "'h KeyAuth \<Rightarrow> Request \<Rightarrow> string" where
  "queryKey ka r =
     contains (Values_Get (Query (RawQuery (URL r))) (queryParamName ka)) (keys ka) True"

definition pathKey :: "'h KeyAuth \<Rightarrow> Request \<Rightarrow> string" where
  "pathKey ka r = contains (Path (URL r)) (keys ka) False"

definition headerMatches :: "'h KeyAuth \<Rightarrow> Request \<Rightarrow> bool" where
  "headerMatches ka r = (authenticationHeader ka \<and> headerKey ka r \<noteq> [])"

definition bearerMatches :: "'h KeyAuth \<Rightarrow> Request \<Rightarrow> bool" where
  "bearerMatches ka r = (bearerHeader ka \<and> bearerKey ka r \<noteq> [])"

definition queryMatches :: "'h KeyAuth \<Rightarrow> Request \<Rightarrow> bool" where
  "queryMatches ka r = (queryParam ka \<and> queryKey ka r \<noteq> [])"

definition pathMatches :: "'h KeyAuth \<Rightarrow> Request \<Rightarrow> bool" where
  "pathMatches ka r = (pathSegment ka \<and> pathKey ka r \<noteq> [])"

definition noMatch :: "'h KeyAuth \<Rightarrow> Request \<Rightarrow> bool" where
  "noMatch ka r =
     (\<not> headerMatches ka r \<and> \<not> bearerMatches ka r \<and> \<not> queryMatches ka r \<and> \<not> pathMatches ka r)"

text \<open>
  The matched value of the first method that matches, in the order header, bearer
  header, query parameter, path; the empty string when none matches.
\<close>

definition firstMatch :: "'h KeyAuth \<Rightarrow> Request \<Rightarrow> string" where
  "firstMatch ka r =
     (if headerMatches ka r then headerKey ka r
      else if bearerMatches ka r then bearerKey ka r
      else if queryMatches ka r then queryKey ka r
      else if pathMatches ka r then pathKey ka r
      else [])"

text \<open>
  The deletions a successful method makes before the request is forwarded: on the
  headers, and on the query string.
\<close>

definition headersAfterMatch :: "'h KeyAuth \<Rightarrow> Request \<Rightarrow> gomap" where
  "headersAfterMatch ka r =
     (if headerMatches ka r then
        (if removeHeadersOnSuccess ka
         then Header_Del (Header r) (authenticationHeaderName ka) else Header r)
      else if bearerMatches ka r then
        (if removeHeadersOnSuccess ka
         then Header_Del (Header r) (bearerHeaderName ka) else Header r)
      else Header r)"

text \<open>
  An entry of the allow-list is presented by a request when an enabled method
  finds it there: as the value of the header, as the token of the bearer header,
  as the value of the query parameter, or somewhere in the path.
\<close>

definition presented :: "'h KeyAuth \<Rightarrow> Request \<Rightarrow> string \<Rightarrow> bool" where
  "presented ka r k =
     ((authenticationHeader ka \<and> Header_Get (Header r) (authenticationHeaderName ka) = k) \<or>
      (bearerHeader ka \<and> FindStringSubmatch (Header_Get (Header r) (bearerHeaderName ka)) = Some k) \<or>
      (queryParam ka \<and> Values_Get (Query (RawQuery (URL r))) (queryParamName ka) = k) \<or>
      (pathSegment ka \<and> strings_Contains (Path (URL r)) k))"

subsection \<open>Example values\<close>

text \<open>
  A handler with the settings of \<^verbatim>\<open>CreateConfig\<close> and two keys, and the state at the
  start of a call for a request with given headers, path and query string.
\<close>

definition exampleKeyAuth :: "nat KeyAuth" where
  "exampleKeyAuth =
     \<lparr> next_handler = 0,
       authenticationHeader = True,
       authenticationHeaderName = ''X-API-KEY'',
       bearerHeader = True,
       bearerHeaderName = ''Authorization'',
       queryParam = True,
       queryParamName = ''token'',
       pathSegment = True,
       removeQueryParamsOnSuccess = True,
       keys = [''k1'', ''abc''],
       removeHeadersOnSuccess = True,
       internalForwardHeaderName = [],
       internalErrorRoute = [] \<rparr>"

definition exampleRequest :: "gomap \<Rightarrow> string \<Rightarrow> string \<Rightarrow> Request" where
  "exampleRequest h p q =
     \<lparr> Header = h, URL = \<lparr>Path = p, RawQuery = q\<rparr>, RequestURI = Received [] \<rparr>"

definition exampleState :: "gomap \<Rightarrow> string \<Rightarrow> string \<Rightarrow> nat state" where
  "exampleState h p q = \<lparr> req = exampleRequest h p q, rw = [], served = [] \<rparr>"

section \<open>Properties of the matcher\<close>

subsection \<open>Auxiliary facts\<close>

lemma strings_Contains_iff: "strings_Contains s sub \<longleftrightarrow> (\<exists>p q. s = p @ sub @ q)"
proof (induction s)
  case Nil
  then show ?case by simp
next
  case (Cons c cs)
  show ?case
  proof
    assume "strings_Contains (c # cs) sub"
    then consider "prefix sub (c # cs)" | "strings_Contains cs sub" by auto
    then show "\<exists>p q. c # cs = p @ sub @ q"
    proof cases
      case 1
      then obtain q where "c # cs = sub @ q" by (auto simp: prefix_def)
      then have "c # cs = [] @ sub @ q" by simp
      then show ?thesis by blast
    next
      case 2
      with Cons.IH obtain p q where "cs = p @ sub @ q" by blast
      then have "c # cs = (c # p) @ sub @ q" by simp
      then show ?thesis by blast
    qed
  next
    assume "\<exists>p q. c # cs = p @ sub @ q"
    then obtain p q where pq: "c # cs = p @ sub @ q" by blast
    show "strings_Contains (c # cs) sub"
    proof (cases p)
      case Nil
      with pq have "prefix sub (c # cs)" by (simp add: prefix_def)
      then show ?thesis by simp
    next
      case (Cons a p')
      with pq have "cs = p' @ sub @ q" by simp
      with Cons.IH have "strings_Contains cs sub" by blast
      then show ?thesis by simp
    qed
  qed
qed

lemma contains_exact: "contains key L True = (if key \<in> set L then key else [])"
  by (induction L) auto

lemma contains_substr_find:
  "contains c L False = (case find (strings_Contains c) L of None \<Rightarrow> [] | Some a \<Rightarrow> a)"
  by (induction L) auto

lemma matchHere_Some:
  assumes "matchHere s = Some k"
  shows "\<exists>w r. s = ''Bearer'' @ w # k @ r \<and> isSpace w \<and> k \<noteq> [] \<and> CHR ''$'' \<notin> set k"
proof -
  from assms have t: "take 6 s = ''Bearer''"
    by (auto simp: matchHere_def split: if_splits)
  from assms t obtain w rest where d: "drop 6 s = w # rest"
    by (auto simp: matchHere_def split: list.splits)
  from assms t d have w: "isSpace w" and k: "k = takeWhile (\<lambda>c. c \<noteq> CHR ''$'') rest" and ne: "k \<noteq> []"
    by (auto simp: matchHere_def split: if_splits)
  have "s = take 6 s @ drop 6 s" by simp
  also have "\<dots> = ''Bearer'' @ w # (k @ dropWhile (\<lambda>c. c \<noteq> CHR ''$'') rest)"
    unfolding t d k by simp
  finally have "s = ''Bearer'' @ w # k @ dropWhile (\<lambda>c. c \<noteq> CHR ''$'') rest" .
  moreover have "CHR ''$'' \<notin> set k" unfolding k by (auto dest: set_takeWhileD)
  ultimately show ?thesis using w ne by blast
qed

lemma FindStringSubmatch_Some:
  "FindStringSubmatch h = Some k \<Longrightarrow>
     \<exists>p w r. h = p @ ''Bearer'' @ w # k @ r \<and> isSpace w \<and> k \<noteq> [] \<and> CHR ''$'' \<notin> set k"
proof (induction h)
  case Nil
  then show ?case by simp
next
  case (Cons c cs)
  show ?case
  proof (cases "matchHere (c # cs)")
    case None
    with Cons.prems have "FindStringSubmatch cs = Some k" by simp
    with Cons.IH obtain p w r where
      "cs = p @ ''Bearer'' @ w # k @ r" "isSpace w" "k \<noteq> []" "CHR ''$'' \<notin> set k" by blast
    then have "c # cs = (c # p) @ ''Bearer'' @ w # k @ r \<and> isSpace w \<and> k \<noteq> [] \<and> CHR ''$'' \<notin> set k"
      by simp
    then show ?thesis by blast
  next
    case (Some k')
    with Cons.prems have "k' = k" by simp
    with Some matchHere_Some[of "c # cs" k] obtain w r where
      "c # cs = [] @ ''Bearer'' @ w # k @ r \<and> isSpace w \<and> k \<noteq> [] \<and> CHR ''$'' \<notin> set k"
      by auto
    then show ?thesis by blast
  qed
qed

lemma matchHere_Bearer:
  assumes "isSpace w" "t \<noteq> []" "CHR ''$'' \<notin> set t"
  shows "matchHere (''Bearer'' @ w # t) = Some t"
proof -
  have tw: "takeWhile (\<lambda>c. c \<noteq> CHR ''$'') t = t" using assms(3) by (induction t) auto
  show ?thesis using assms(1,2) by (simp add: matchHere_def tw)
qed

lemma FindStringSubmatch_Bearer_only:
  "FindStringSubmatch (''Bearer'' @ [w]) = None"
  by (simp add: matchHere_def)

lemma sublist_strings_Contains: "sublist a c \<longleftrightarrow> strings_Contains c a"
  by (auto simp: strings_Contains_iff sublist_def)

subsection \<open>Substring matching\<close>

text \<open>
  C8, as the code has it. \<^verbatim>\<open>contains(c, L, false)\<close> returns the member of \<open>L\<close> that
  comes first in the order of \<open>L\<close> among the members that are contiguous substrings
  of \<open>c\<close>, and the empty string (which stands for ``none'') when no member is a
  substring of \<open>c\<close>. A result other than the empty string is a member of \<open>L\<close> and a
  substring of \<open>c\<close>. For an allow-list without the empty string, the result is
  ``none'' exactly when no member is a substring of \<open>c\<close>.
\<close>

theorem contains_substring_first:
  "(\<forall>i<length L. sublist (L ! i) c \<and> (\<forall>j<i. \<not> sublist (L ! j) c) \<longrightarrow> contains c L False = L ! i) \<and>
   ((\<forall>a\<in>set L. \<not> sublist a c) \<longrightarrow> contains c L False = []) \<and>
   (contains c L False \<noteq> [] \<longrightarrow> contains c L False \<in> set L \<and> sublist (contains c L False) c) \<and>
   ([] \<notin> set L \<longrightarrow> (contains c L False = [] \<longleftrightarrow> (\<forall>a\<in>set L. \<not> sublist a c)))"
proof (intro conjI allI impI)
  fix i
  assume "i < length L"
    and "sublist (L ! i) c \<and> (\<forall>j<i. \<not> sublist (L ! j) c)"
  then have "find (strings_Contains c) L = Some (L ! i)"
    unfolding find_Some_iff sublist_strings_Contains by blast
  then show "contains c L False = L ! i"
    by (simp add: contains_substr_find)
next
  assume "\<forall>a\<in>set L. \<not> sublist a c"
  then have "find (strings_Contains c) L = None"
    unfolding find_None_iff sublist_strings_Contains by blast
  then show "contains c L False = []"
    by (simp add: contains_substr_find)
next
  assume ne: "contains c L False \<noteq> []"
  then obtain a where a: "find (strings_Contains c) L = Some a"
    by (auto simp: contains_substr_find split: option.splits)
  then have "a \<in> set L" and "strings_Contains c a"
    by (auto simp: find_Some_iff)
  moreover from a have "contains c L False = a"
    by (simp add: contains_substr_find)
  ultimately show "contains c L False \<in> set L" and "sublist (contains c L False) c"
    by (simp_all add: sublist_strings_Contains)
next
  assume nil: "[] \<notin> set L"
  show "contains c L False = [] \<longleftrightarrow> (\<forall>a\<in>set L. \<not> sublist a c)"
  proof (cases "find (strings_Contains c) L")
    case None
    then have "\<forall>a\<in>set L. \<not> sublist a c"
      by (simp add: find_None_iff sublist_strings_Contains)
    moreover from None have "contains c L False = []"
      by (simp add: contains_substr_find)
    ultimately show ?thesis by simp
  next
    case (Some a)
    then have "a \<in> set L" and "strings_Contains c a"
      by (auto simp: find_Some_iff)
    with nil Some show ?thesis
      by (auto simp: contains_substr_find sublist_strings_Contains)
  qed
qed

theorem contains_substring_first_witness:
  "1 < length [''zz'', ''abc'', ''v1''] \<and>
   sublist ([''zz'', ''abc'', ''v1''] ! 1) ''/v1/abc/x'' \<and>
   \<not> sublist ([''zz'', ''abc'', ''v1''] ! 0) ''/v1/abc/x'' \<and>
   [] \<notin> set [''zz'', ''abc'', ''v1''] \<and>
   contains ''/v1/abc/x'' [''zz'', ''abc'', ''v1''] False = ''abc'' \<and>
   contains ''/v1/abc/x'' [''zz'', ''abc'', ''v1''] False \<in> set [''zz'', ''abc'', ''v1''] \<and>
   sublist (contains ''/v1/abc/x'' [''zz'', ''abc'', ''v1''] False) ''/v1/abc/x'' \<and>
   (\<not> sublist ''k1'' ''/health'' \<and> contains ''/health'' [''k1''] False = [])"
proof -
  let ?L = "[''zz'', ''abc'', ''v1'']"
  let ?c = "''/v1/abc/x''"
  have len: "1 < length ?L" by simp
  have hit: "sublist (?L ! 1) ?c" by (simp add: sublist_strings_Contains)
  have miss: "\<not> sublist (?L ! 0) ?c" by (simp add: sublist_strings_Contains)
  have nil: "[] \<notin> set ?L" by simp
  have first: "sublist (?L ! 1) ?c \<and> (\<forall>j<1. \<not> sublist (?L ! j) ?c)"
    using hit miss by simp
  from contains_substring_first [of ?L ?c] len first
  have res: "contains ?c ?L False = ?L ! 1" by blast
  then have res': "contains ?c ?L False = ''abc''" by simp
  then have ne: "contains ?c ?L False \<noteq> []" by simp
  from contains_substring_first [of ?L ?c] ne
  have mem: "contains ?c ?L False \<in> set ?L \<and> sublist (contains ?c ?L False) ?c" by blast
  have none: "\<forall>a\<in>set [''k1'']. \<not> sublist a ''/health''"
    by (simp add: sublist_strings_Contains)
  from contains_substring_first [of "[''k1'']" "''/health''"] none
  have res0: "contains ''/health'' [''k1''] False = []" by blast
  from len hit miss nil res' mem none res0 show ?thesis by simp
qed

text \<open>
  C8 as stated fails: with the allow-list \<^verbatim>\<open>["", "abc"]\<close> and the candidate \<^verbatim>\<open>/abc\<close>
  the member \<^verbatim>\<open>abc\<close> is a substring of the candidate, but the result is ``none''.
\<close>

theorem contains_substring_counterexample:
  "''abc'' \<in> set ['''', ''abc''] \<and> sublist ''abc'' ''/abc'' \<and>
   contains ''/abc'' ['''', ''abc''] False = []"
  by (simp add: sublist_strings_Contains)

subsection \<open>Bearer tokens\<close>

text \<open>
  C2, as the code has it. For a header value made of \<^verbatim>\<open>Bearer\<close>, exactly one
  whitespace character and a rest \<open>t\<close> without the character \<^verbatim>\<open>$\<close>, \<^verbatim>\<open>bearer\<close> returns
  \<open>t\<close> when \<open>t\<close> is in the allow-list and ``none'' otherwise: a token \<open>t\<close> of the
  allow-list after one whitespace character is returned, and whitespace after the
  first whitespace character belongs to the token that is compared.
\<close>

theorem bearer_single_whitespace:
  assumes "isSpace w" and "CHR ''$'' \<notin> set t"
  shows "bearer (''Bearer'' @ w # t) L = (if t \<in> set L then t else [])"
proof (cases "t = []")
  case True
  then show ?thesis using FindStringSubmatch_Bearer_only[of w] by (simp add: bearer_def)
next
  case False
  with assms have "matchHere (''Bearer'' @ w # t) = Some t" by (intro matchHere_Bearer)
  then have "FindStringSubmatch (''Bearer'' @ w # t) = Some t" by simp
  then show ?thesis by (simp add: bearer_def contains_exact)
qed

theorem bearer_single_whitespace_witness:
  "isSpace CHR '' '' \<and> CHR ''$'' \<notin> set ''abc123'' \<and>
   bearer ''Bearer abc123'' [''abc123''] = ''abc123''"
proof -
  have w: "isSpace CHR '' ''" by (simp add: isSpace_def)
  have t: "CHR ''$'' \<notin> set ''abc123''" by simp
  from bearer_single_whitespace [OF w t, of "[''abc123'']"]
  have "bearer (''Bearer'' @ CHR '' '' # ''abc123'') [''abc123''] = ''abc123''" by simp
  with w t show ?thesis by simp
qed

text \<open>
  C2 as stated fails at its own example: after \<^verbatim>\<open>Bearer\<close> and two spaces the token
  \<^verbatim>\<open>abc123\<close> of the allow-list is not returned.
\<close>

theorem bearer_two_spaces_counterexample:
  "''abc123'' \<in> set [''abc123''] \<and> bearer ''Bearer  abc123'' [''abc123''] \<noteq> ''abc123''"
  by (simp add: bearer_def matchHere_def isSpace_def)

text \<open>
  C3, as the code has it. \<^verbatim>\<open>bearer\<close> returns ``none'' whenever the header value has
  the shape \<^verbatim>\<open>Bearer\<close>, whitespace, token at none of its positions, that is when
  no suffix of the value has the shape; a result other than ``none'' is a member
  of the allow-list. \<^verbatim>\<open>bearer("Basic abc123", L)\<close> and \<^verbatim>\<open>bearer("Bearerabc123", L)\<close>
  are ``none'' for every \<open>L\<close>.
\<close>

theorem bearer_none_without_shape:
  "(\<not> list_ex spec_bearer_shape (suffixes h) \<longrightarrow> bearer h L = []) \<and>
   (bearer h L \<noteq> [] \<longrightarrow> bearer h L \<in> set L) \<and>
   bearer ''Basic abc123'' L = [] \<and> bearer ''Bearerabc123'' L = []"
proof (intro conjI impI)
  assume no: "\<not> list_ex spec_bearer_shape (suffixes h)"
  show "bearer h L = []"
  proof (cases "FindStringSubmatch h")
    case None
    then show ?thesis by (simp add: bearer_def)
  next
    case (Some k)
    then obtain p w r where h: "h = p @ ''Bearer'' @ w # k @ r" and w: "isSpace w" and k: "k \<noteq> []"
      using FindStringSubmatch_Some by blast
    from k obtain c k' where "k = c # k'" by (cases k) auto
    with w have "spec_bearer_shape (''Bearer'' @ w # k @ r)"
      by (simp add: spec_bearer_shape_def)
    moreover from h have "''Bearer'' @ w # k @ r \<in> set (suffixes h)"
      by (simp add: in_set_suffixes suffix_def)
    ultimately have "list_ex spec_bearer_shape (suffixes h)"
      unfolding list_ex_iff by blast
    with no show ?thesis by simp
  qed
next
  assume "bearer h L \<noteq> []"
  then show "bearer h L \<in> set L"
    by (auto simp: bearer_def contains_exact split: option.splits if_splits)
next
  show "bearer ''Basic abc123'' L = []"
    by (simp add: bearer_def matchHere_def)
next
  show "bearer ''Bearerabc123'' L = []"
    by (simp add: bearer_def matchHere_def isSpace_def)
qed

theorem bearer_none_without_shape_witness:
  "\<not> list_ex spec_bearer_shape (suffixes ''Basic abc123'') \<and>
   bearer ''Basic abc123'' [''abc123''] = [] \<and>
   bearer ''xBearer abc123'' [''abc123''] \<noteq> [] \<and>
   bearer ''xBearer abc123'' [''abc123''] \<in> set [''abc123'']"
proof -
  have no: "\<not> list_ex spec_bearer_shape (suffixes ''Basic abc123'')"
    by (simp add: spec_bearer_shape_def)
  from bearer_none_without_shape [of "''Basic abc123''" "[''abc123'']"] no
  have none: "bearer ''Basic abc123'' [''abc123''] = []" by blast
  have ne: "bearer ''xBearer abc123'' [''abc123''] \<noteq> []"
    by (simp add: bearer_def matchHere_def isSpace_def)
  from bearer_none_without_shape [of "''xBearer abc123''" "[''abc123'']"] ne
  have mem: "bearer ''xBearer abc123'' [''abc123''] \<in> set [''abc123'']" by blast
  from no none ne mem show ?thesis by blast
qed

text \<open>
  C3 as stated fails: the value \<^verbatim>\<open>Basic Bearer abc123\<close> has the wrong scheme and not
  the shape \<^verbatim>\<open>Bearer\<close>, whitespace, token, and it yields the match \<^verbatim>\<open>abc123\<close>.
\<close>

theorem bearer_unanchored_counterexample:
  "\<not> spec_bearer_shape ''Basic Bearer abc123'' \<and>
   bearer ''Basic Bearer abc123'' [''abc123''] = ''abc123''"
  by (simp add: spec_bearer_shape_def bearer_def matchHere_def isSpace_def)

section \<open>Construction\<close>

text \<open>
  C5. \<^verbatim>\<open>New\<close> returns an error, and with it no handler, exactly when the allow-list
  is empty or all four location toggles are false; for a configuration with a
  non-empty allow-list and at least one toggle enabled it returns a handler, which
  holds the settings of the configuration.
\<close>

theorem New_error_iff:
  "(isl (New ctx nxt config name) \<longleftrightarrow>
      Keys config = [] \<or>
      (\<not> AuthenticationHeader config \<and> \<not> BearerHeader config \<and>
       \<not> QueryParam config \<and> \<not> PathSegment config)) \<and>
   (Keys config = [] \<longrightarrow> isl (New ctx nxt config name)) \<and>
   (Keys config \<noteq> [] \<and>
    (AuthenticationHeader config \<or> BearerHeader config \<or> QueryParam config \<or> PathSegment config)
    \<longrightarrow> (\<exists>ka. New ctx nxt config name = Inr ka \<and> next_handler ka = nxt \<and>
              keys ka = Keys config \<and>
              authenticationHeader ka = AuthenticationHeader config \<and>
              bearerHeader ka = BearerHeader config \<and>
              queryParam ka = QueryParam config \<and>
              pathSegment ka = PathSegment config))"
  by (simp add: New_def)

theorem New_error_iff_witness:
  "Keys (CreateConfig\<lparr>Keys := [''k1''], BearerHeader := False\<rparr>) \<noteq> [] \<and>
   AuthenticationHeader (CreateConfig\<lparr>Keys := [''k1''], BearerHeader := False\<rparr>) \<and>
   (\<exists>ka. New () (0::nat) (CreateConfig\<lparr>Keys := [''k1''], BearerHeader := False\<rparr>) ''auth'' = Inr ka \<and>
         keys ka = [''k1''] \<and> \<not> bearerHeader ka) \<and>
   Keys CreateConfig = [] \<and> isl (New () (0::nat) CreateConfig ''auth'')"
proof -
  let ?c = "CreateConfig\<lparr>Keys := [''k1''], BearerHeader := False\<rparr>"
  have k: "Keys ?c \<noteq> []" by simp
  have a: "AuthenticationHeader ?c" by (simp add: CreateConfig_def)
  from New_error_iff [of "()" "0::nat" ?c "''auth''"] k a
  obtain ka where "New () (0::nat) ?c ''auth'' = Inr ka" and "keys ka = Keys ?c"
    and "bearerHeader ka = BearerHeader ?c"
    by blast
  then have ex: "\<exists>ka. New () (0::nat) ?c ''auth'' = Inr ka \<and> keys ka = [''k1''] \<and> \<not> bearerHeader ka"
    by simp
  have e: "Keys CreateConfig = []" by (simp add: CreateConfig_def)
  from New_error_iff [of "()" "0::nat" CreateConfig "''auth''"] e
  have err: "isl (New () (0::nat) CreateConfig ''auth'')" by blast
  from k a ex e err show ?thesis by blast
qed

section \<open>Properties of the handler\<close>

subsection \<open>Auxiliary facts\<close>

lemma contains_mem: "contains c L e \<noteq> [] \<Longrightarrow> contains c L e \<in> set L"
  by (induction L) (auto split: if_splits)

lemma contains_substr_sound:
  "contains c L False \<noteq> [] \<Longrightarrow> strings_Contains c (contains c L False)"
  by (induction L) (auto split: if_splits)

lemma bearer_mem: "bearer h L \<noteq> [] \<Longrightarrow> bearer h L \<in> set L"
  by (auto simp: bearer_def contains_exact split: option.splits if_splits)

lemma bearer_presented:
  "bearer h L \<noteq> [] \<Longrightarrow> FindStringSubmatch h = Some (bearer h L)"
  by (auto simp: bearer_def contains_exact split: option.splits if_splits)

lemma ok_served: "served (ok ka s key) = served s @ [(next_handler ka, req (ok ka s key))]"
  by (simp add: ok_def Let_def)

lemma ok_rw: "rw (ok ka s key) = rw s"
  by (simp add: ok_def Let_def)

lemma ok_Header:
  "Header (req (ok ka s key)) =
     (if internalForwardHeaderName ka \<noteq> []
      then Header_Add (Header (req s)) (internalForwardHeaderName ka) key
      else Header (req s))"
  by (simp add: ok_def Let_def)

lemma ok_URL: "URL (req (ok ka s key)) = URL (req s)"
  by (simp add: ok_def Let_def)

lemma checkHeader_eq:
  "checkHeader ka s =
     (if headerMatches ka (req s) then
        Some (ok ka
          (if removeHeadersOnSuccess ka
           then s\<lparr>req := (req s)\<lparr>Header := Header_Del (Header (req s)) (authenticationHeaderName ka)\<rparr>\<rparr>
           else s)
          (headerKey ka (req s)))
      else None)"
  by (simp add: checkHeader_def headerMatches_def headerKey_def Let_def)

lemma checkBearer_eq:
  "checkBearer ka s =
     (if bearerMatches ka (req s) then
        Some (ok ka
          (if removeHeadersOnSuccess ka
           then s\<lparr>req := (req s)\<lparr>Header := Header_Del (Header (req s)) (bearerHeaderName ka)\<rparr>\<rparr>
           else s)
          (bearerKey ka (req s)))
      else None)"
  by (simp add: checkBearer_def bearerMatches_def bearerKey_def Let_def)

lemma checkQuery_eq:
  "checkQuery ka s =
     (if queryMatches ka (req s) then
        Some (ok ka
          (s\<lparr>req := (req s)\<lparr>URL := (URL (req s))
             \<lparr>RawQuery := Values_Encode
                (if removeQueryParamsOnSuccess ka
                 then Values_Del (Query (RawQuery (URL (req s)))) (queryParamName ka)
                 else Query (RawQuery (URL (req s))))\<rparr>\<rparr>\<rparr>)
          (queryKey ka (req s)))
      else None)"
  by (simp add: checkQuery_def queryMatches_def queryKey_def Let_def)

lemma checkPath_eq:
  "checkPath ka s =
     (if pathMatches ka (req s) then Some (ok ka s (pathKey ka (req s))) else None)"
  by (simp add: checkPath_def pathMatches_def pathKey_def Let_def)

lemmas check_eqs = checkHeader_eq checkBearer_eq checkQuery_eq checkPath_eq

lemma ServeHTTP_noMatch: "noMatch ka (req s) \<Longrightarrow> ServeHTTP ka s = reject ka s"
  by (simp add: ServeHTTP_def check_eqs noMatch_def)

lemma Encode_rejection:
  "Encode \<lparr>Message = ''Invalid or missing API Key'', StatusCode = StatusForbidden\<rparr> =
     spec_rejection_body @ [CHR 0x0A]"
  by code_simp

lemma index_addValue:
  "index (addValue k m v) k' = (if k' = k then index m k @ [v] else index m k')"
  by (simp add: addValue_def index_def update_conv')

lemma index_Header_Add:
  "index (Header_Add h key val) (CanonicalMIMEHeaderKey key) =
     index h (CanonicalMIMEHeaderKey key) @ [val]"
  by (simp add: Header_Add_def index_addValue)

lemma index_delete: "index (AList.delete k m) k' = (if k' = k then [] else index m k')"
  by (simp add: index_def delete_conv')

lemma firstMatch_mem:
  assumes "\<not> noMatch ka r"
  shows "firstMatch ka r \<in> set (keys ka) \<and> firstMatch ka r \<noteq> []"
  using assms
  by (auto simp: noMatch_def firstMatch_def headerMatches_def bearerMatches_def queryMatches_def
      pathMatches_def headerKey_def bearerKey_def queryKey_def pathKey_def
      intro: contains_mem bearer_mem)

lemma ServeHTTP_match:
  assumes "\<not> noMatch ka (req s)"
  shows "\<exists>s'. ServeHTTP ka s = ok ka s' (firstMatch ka (req s)) \<and>
     Header (req s') = headersAfterMatch ka (req s) \<and> served s' = served s \<and> rw s' = rw s"
  using assms
  by (auto simp: ServeHTTP_def check_eqs noMatch_def firstMatch_def headersAfterMatch_def)

lemma contains_exact_nonempty:
  "contains c L True \<noteq> [] \<Longrightarrow> c \<in> set L \<and> c \<noteq> [] \<and> contains c L True = c"
  by (auto simp: contains_exact split: if_splits)

lemma noMatch_if_only_empty:
  assumes "\<forall>k\<in>set (keys ka). k \<noteq> [] \<longrightarrow> \<not> presented ka r k"
  shows "noMatch ka r"
proof -
  have "\<not> headerMatches ka r"
  proof
    assume "headerMatches ka r"
    then have e: "authenticationHeader ka" and "headerKey ka r \<noteq> []"
      by (simp_all add: headerMatches_def)
    then have "Header_Get (Header r) (authenticationHeaderName ka) \<in> set (keys ka)"
      and "Header_Get (Header r) (authenticationHeaderName ka) \<noteq> []"
      using contains_exact_nonempty by (auto simp: headerKey_def)
    with assms e show False by (auto simp: presented_def)
  qed
  moreover have "\<not> bearerMatches ka r"
  proof
    assume "bearerMatches ka r"
    then have e: "bearerHeader ka" and ne: "bearerKey ka r \<noteq> []"
      by (simp_all add: bearerMatches_def)
    from ne have "bearerKey ka r \<in> set (keys ka)"
      and "FindStringSubmatch (Header_Get (Header r) (bearerHeaderName ka)) = Some (bearerKey ka r)"
      by (simp_all add: bearerKey_def bearer_mem bearer_presented)
    with assms e ne show False by (auto simp: presented_def)
  qed
  moreover have "\<not> queryMatches ka r"
  proof
    assume "queryMatches ka r"
    then have e: "queryParam ka" and "queryKey ka r \<noteq> []"
      by (simp_all add: queryMatches_def)
    then have "Values_Get (Query (RawQuery (URL r))) (queryParamName ka) \<in> set (keys ka)"
      and "Values_Get (Query (RawQuery (URL r))) (queryParamName ka) \<noteq> []"
      using contains_exact_nonempty by (auto simp: queryKey_def)
    with assms e show False by (auto simp: presented_def)
  qed
  moreover have "\<not> pathMatches ka r"
  proof
    assume "pathMatches ka r"
    then have e: "pathSegment ka" and ne: "pathKey ka r \<noteq> []"
      by (simp_all add: pathMatches_def)
    from ne have "pathKey ka r \<in> set (keys ka)" and "strings_Contains (Path (URL r)) (pathKey ka r)"
      by (simp_all add: pathKey_def contains_mem contains_substr_sound)
    with assms e ne show False by (auto simp: presented_def)
  qed
  ultimately show ?thesis by (simp add: noMatch_def)
qed

subsection \<open>Parsing an encoded query string\<close>

text \<open>
  \<^verbatim>\<open>QueryUnescape\<close> undoes \<^verbatim>\<open>QueryEscape\<close>, whose result holds none of the separators
  of a query string, so that parsing the encoding of a map gives back, key by key,
  the values of the map.
\<close>

lemma hex_digit: "n < 16 \<Longrightarrow> ishex (upperhex n) \<and> unhex (upperhex n) = n \<and>
    upperhex n \<in> set ''0123456789ABCDEF''"
proof -
  assume "n < 16"
  then have "n \<in> set [0..<16]" by simp
  moreover have "\<forall>n\<in>set [0..<16]. ishex (upperhex n) \<and> unhex (upperhex n) = n \<and>
    upperhex n \<in> set ''0123456789ABCDEF''"
    by code_simp
  ultimately show ?thesis by blast
qed

lemma shouldEscape_special:
  "shouldEscape CHR ''%''" "shouldEscape CHR ''+''" "shouldEscape CHR ''&''"
  "shouldEscape CHR ''=''" "shouldEscape CHR '';''"
  by code_simp+

lemma of_char_lt: "of_char (c::char) < (256::nat)"
  by (metis of_char_mod_256 mod_less_divisor zero_less_numeral)

lemma QueryUnescape_escapeByte:
  "QueryUnescape (escapeByte c @ rest) = map_option ((#) c) (QueryUnescape rest)"
proof -
  consider "c = CHR '' ''" | "c \<noteq> CHR '' ''" "shouldEscape c" | "c \<noteq> CHR '' ''" "\<not> shouldEscape c"
    by blast
  then show ?thesis
  proof cases
    case 1
    then show ?thesis by (simp add: escapeByte_def)
  next
    case 2
    let ?n = "of_char c :: nat"
    have hi: "?n div 16 < 16" using of_char_lt[of c] by (simp add: less_mult_imp_div_less)
    have lo: "?n mod 16 < 16" by simp
    have "unhex (upperhex (?n div 16)) * 16 + unhex (upperhex (?n mod 16)) = ?n"
      using hex_digit[OF hi] hex_digit[OF lo] by simp
    then have "char_of (unhex (upperhex (?n div 16)) * 16 + unhex (upperhex (?n mod 16))) = c"
      by simp
    with 2 hex_digit[OF hi] hex_digit[OF lo] show ?thesis
      by (simp add: escapeByte_def)
  next
    case 3
    then have "c \<noteq> CHR ''%''" "c \<noteq> CHR ''+''"
      using shouldEscape_special by auto
    with 3 show ?thesis by (simp add: escapeByte_def)
  qed
qed

lemma QueryUnescape_QueryEscape: "QueryUnescape (QueryEscape s) = Some s"
  by (induction s) (simp_all add: QueryEscape_def QueryUnescape_escapeByte)

lemma escapeByte_clean:
  assumes "x \<in> set (escapeByte c)"
  shows "x \<noteq> CHR ''&'' \<and> x \<noteq> CHR ''='' \<and> x \<noteq> CHR '';''"
proof -
  let ?n = "of_char c :: nat"
  have hi: "?n div 16 < 16" using of_char_lt[of c] by (simp add: less_mult_imp_div_less)
  have lo: "?n mod 16 < 16" by simp
  from assms consider "x = CHR ''+''" | "x = CHR ''%''" | "x = upperhex (?n div 16)"
    | "x = upperhex (?n mod 16)" | "x = c" "\<not> shouldEscape c"
    by (auto simp: escapeByte_def split: if_splits)
  then show ?thesis
  proof cases
    case 3
    with hex_digit[OF hi] have "x \<in> set ''0123456789ABCDEF''" by simp
    then show ?thesis by auto
  next
    case 4
    with hex_digit[OF lo] have "x \<in> set ''0123456789ABCDEF''" by simp
    then show ?thesis by auto
  next
    case 5
    then show ?thesis using shouldEscape_special by auto
  qed simp_all
qed

lemma QueryEscape_clean:
  "CHR ''&'' \<notin> set (QueryEscape s)" "CHR ''='' \<notin> set (QueryEscape s)"
  "CHR '';'' \<notin> set (QueryEscape s)"
  using escapeByte_clean by (auto simp: QueryEscape_def)

lemma Cut_append:
  "sep \<notin> set xs \<Longrightarrow> Cut (xs @ sep # ys) sep = (xs, ys)"
  by (induction xs) auto

lemma Cut_none: "sep \<notin> set xs \<Longrightarrow> Cut xs sep = (xs, [])"
  by (induction xs) auto

lemma parseQuery_piece: "CHR ''&'' \<notin> set p \<Longrightarrow> parseQuery m p = parsePair m p"
  by (cases p) (simp_all add: Cut_none parsePair_def del: Cut.simps)

lemma Cut_append_left:
  "sep \<in> set xs \<Longrightarrow>
     Cut (xs @ ys) sep = (fst (Cut xs sep), snd (Cut xs sep) @ ys)"
  by (induction xs) auto

lemma parseQuery_snoc:
  "CHR ''&'' \<notin> set p \<Longrightarrow>
     parseQuery m (buf @ CHR ''&'' # p) = parsePair (parseQuery m buf) p"
proof (induction m buf rule: parseQuery.induct)
  case (1 m)
  then show ?case by (simp add: parseQuery_piece parsePair_def)
next
  case (2 m c cs)
  show ?case
  proof (cases "CHR ''&'' \<in> set (c # cs)")
    case True
    then have "Cut ((c # cs) @ CHR ''&'' # p) CHR ''&'' =
        (fst (Cut (c # cs) CHR ''&''), snd (Cut (c # cs) CHR ''&'') @ CHR ''&'' # p)"
      by (rule Cut_append_left)
    then have "parseQuery m ((c # cs) @ CHR ''&'' # p) =
        parseQuery (parsePair m (fst (Cut (c # cs) CHR ''&'')))
          (snd (Cut (c # cs) CHR ''&'') @ CHR ''&'' # p)"
      by (simp del: Cut.simps)
    also have "\<dots> = parsePair (parseQuery (parsePair m (fst (Cut (c # cs) CHR ''&'')))
          (snd (Cut (c # cs) CHR ''&''))) p"
      using 2 by blast
    finally show ?thesis by (simp del: Cut.simps)
  next
    case False
    then have a: "Cut ((c # cs) @ CHR ''&'' # p) CHR ''&'' = (c # cs, p)"
      by (rule Cut_append)
    from False have b: "Cut (c # cs) CHR ''&'' = (c # cs, [])" by (rule Cut_none)
    have "parseQuery m ((c # cs) @ CHR ''&'' # p) = parseQuery (parsePair m (c # cs)) p"
      using a by (simp del: Cut.simps)
    also have "\<dots> = parsePair (parsePair m (c # cs)) p"
      using 2 by (simp add: parseQuery_piece)
    also have "parsePair m (c # cs) = parseQuery m (c # cs)"
      using b by (simp del: Cut.simps)
    finally show ?thesis .
  qed
qed

lemma parsePair_escaped:
  "parsePair m (QueryEscape k @ CHR ''='' # QueryEscape v) = addValue k m v"
  using QueryEscape_clean[of k] QueryEscape_clean[of v]
  by (simp add: parsePair_def Cut_append QueryUnescape_QueryEscape)

lemma parseQuery_writePair:
  "parseQuery m (writePair (QueryEscape k) buf v) = addValue k (parseQuery m buf) v"
proof (cases "buf = []")
  case True
  have "CHR ''&'' \<notin> set (QueryEscape k @ CHR ''='' # QueryEscape v)"
    using QueryEscape_clean[of k] QueryEscape_clean[of v] by simp
  then have "parseQuery m (QueryEscape k @ CHR ''='' # QueryEscape v) =
      parsePair m (QueryEscape k @ CHR ''='' # QueryEscape v)"
    by (rule parseQuery_piece)
  with True show ?thesis by (simp add: writePair_def parsePair_escaped)
next
  case False
  have "CHR ''&'' \<notin> set (QueryEscape k @ CHR ''='' # QueryEscape v)"
    using QueryEscape_clean[of k] QueryEscape_clean[of v] by simp
  then have "parseQuery m (buf @ CHR ''&'' # (QueryEscape k @ CHR ''='' # QueryEscape v)) =
      parsePair (parseQuery m buf) (QueryEscape k @ CHR ''='' # QueryEscape v)"
    by (rule parseQuery_snoc)
  with False show ?thesis by (simp add: writePair_def parsePair_escaped)
qed

lemma parseQuery_values:
  "parseQuery m (foldl (writePair (QueryEscape k)) buf vs) = foldl (addValue k) (parseQuery m buf) vs"
  by (induction vs arbitrary: buf) (simp_all add: parseQuery_writePair)

lemma parseQuery_keys:
  "parseQuery m (foldl (\<lambda>buf k. foldl (writePair (QueryEscape k)) buf (f k)) buf ks) =
     foldl (\<lambda>acc k. foldl (addValue k) acc (f k)) (parseQuery m buf) ks"
  by (induction ks arbitrary: buf) (simp_all add: parseQuery_values)

lemma index_addValues:
  "index (foldl (addValue k) m vs) k' = (if k' = k then index m k @ vs else index m k')"
  by (induction vs arbitrary: m) (simp_all add: index_addValue)

lemma index_addKeys:
  "distinct ks \<Longrightarrow>
     index (foldl (\<lambda>acc k. foldl (addValue k) acc (f k)) m ks) k' =
       (if k' \<in> set ks then index m k' @ f k' else index m k')"
  by (induction ks arbitrary: m) (auto simp: index_addValues)

lemma index_absent: "k \<notin> fst ` set m \<Longrightarrow> index m k = []"
proof -
  assume "k \<notin> fst ` set m"
  then have "map_of m k = None" by (simp add: map_of_eq_None_iff)
  then show ?thesis by (simp add: index_def)
qed

lemma Query_Values_Encode: "index (Query (Values_Encode m)) k = index m k"
proof -
  have "index (Query (Values_Encode m)) k =
      (if k \<in> set (sort (remdups (map fst m))) then index [] k @ index m k else index [] k)"
    unfolding Query_def Values_Encode_def parseQuery_keys
    by (simp add: index_addKeys)
  moreover have "index [] k = []" by (simp add: index_def)
  ultimately show ?thesis using index_absent[of k m] by auto
qed

subsection \<open>The order of the methods\<close>

text \<open>
  C1. The methods are tried in the order header, bearer header, query parameter,
  path. The first method that is enabled and matches decides the call: the result
  is that of \<^verbatim>\<open>ok\<close> with the matched value of that method, on the request after that
  method's deletion (the header of the method when \<^verbatim>\<open>removeHeadersOnSuccess\<close> is set),
  whatever the later methods would find, and an earlier method that is enabled and
  does not match does not stop a later one. Whenever a method matches, the
  downstream handler is called exactly once and nothing is written to the response
  writer.
\<close>

theorem ServeHTTP_first_match:
  "(headerMatches ka (req s) \<longrightarrow>
      ServeHTTP ka s =
        ok ka
          (if removeHeadersOnSuccess ka
           then s\<lparr>req := (req s)\<lparr>Header := Header_Del (Header (req s)) (authenticationHeaderName ka)\<rparr>\<rparr>
           else s)
          (headerKey ka (req s))) \<and>
   (\<not> headerMatches ka (req s) \<and> bearerMatches ka (req s) \<longrightarrow>
      ServeHTTP ka s =
        ok ka
          (if removeHeadersOnSuccess ka
           then s\<lparr>req := (req s)\<lparr>Header := Header_Del (Header (req s)) (bearerHeaderName ka)\<rparr>\<rparr>
           else s)
          (bearerKey ka (req s))) \<and>
   (\<not> headerMatches ka (req s) \<and> \<not> bearerMatches ka (req s) \<and> queryMatches ka (req s) \<longrightarrow>
      ServeHTTP ka s =
        ok ka
          (s\<lparr>req := (req s)\<lparr>URL := (URL (req s))
             \<lparr>RawQuery := Values_Encode
                (if removeQueryParamsOnSuccess ka
                 then Values_Del (Query (RawQuery (URL (req s)))) (queryParamName ka)
                 else Query (RawQuery (URL (req s))))\<rparr>\<rparr>\<rparr>)
          (queryKey ka (req s))) \<and>
   (\<not> headerMatches ka (req s) \<and> \<not> bearerMatches ka (req s) \<and> \<not> queryMatches ka (req s) \<and>
    pathMatches ka (req s) \<longrightarrow>
      ServeHTTP ka s = ok ka s (pathKey ka (req s))) \<and>
   (\<not> noMatch ka (req s) \<longrightarrow>
      served (ServeHTTP ka s) = served s @ [(next_handler ka, req (ServeHTTP ka s))] \<and>
      rw (ServeHTTP ka s) = rw s)"
  by (simp add: ServeHTTP_def check_eqs noMatch_def ok_served ok_rw)

theorem ServeHTTP_first_match_witness:
  "\<not> headerMatches (exampleKeyAuth\<lparr>internalForwardHeaderName := ''X-Auth-Key''\<rparr>)
       (req (exampleState [(''X-Api-Key'', [''wrong'']), (''Authorization'', [''Bearer k1''])]
          ''/orders'' [])) \<and>
   bearerMatches (exampleKeyAuth\<lparr>internalForwardHeaderName := ''X-Auth-Key''\<rparr>)
       (req (exampleState [(''X-Api-Key'', [''wrong'']), (''Authorization'', [''Bearer k1''])]
          ''/orders'' [])) \<and>
   ServeHTTP (exampleKeyAuth\<lparr>internalForwardHeaderName := ''X-Auth-Key''\<rparr>)
       (exampleState [(''X-Api-Key'', [''wrong'']), (''Authorization'', [''Bearer k1''])]
          ''/orders'' []) =
     \<lparr> req = \<lparr> Header = [(''X-Api-Key'', [''wrong'']), (''X-Auth-Key'', [''k1''])],
               URL = \<lparr>Path = ''/orders'', RawQuery = []\<rparr>,
               RequestURI = URL_RequestURI \<lparr>Path = ''/orders'', RawQuery = []\<rparr> \<rparr>,
       rw = [],
       served = [(0, \<lparr> Header = [(''X-Api-Key'', [''wrong'']), (''X-Auth-Key'', [''k1''])],
                        URL = \<lparr>Path = ''/orders'', RawQuery = []\<rparr>,
                        RequestURI = URL_RequestURI \<lparr>Path = ''/orders'', RawQuery = []\<rparr> \<rparr>)] \<rparr>"
proof -
  let ?ka = "exampleKeyAuth\<lparr>internalForwardHeaderName := ''X-Auth-Key''\<rparr>"
  let ?s = "exampleState [(''X-Api-Key'', [''wrong'']), (''Authorization'', [''Bearer k1''])]
          ''/orders'' []"
  have h: "\<not> headerMatches ?ka (req ?s)" by code_simp
  have b: "bearerMatches ?ka (req ?s)" by code_simp
  from ServeHTTP_first_match [of ?ka ?s] h b
  have "ServeHTTP ?ka ?s =
        ok ?ka
          (if removeHeadersOnSuccess ?ka
           then ?s\<lparr>req := (req ?s)\<lparr>Header := Header_Del (Header (req ?s)) (bearerHeaderName ?ka)\<rparr>\<rparr>
           else ?s)
          (bearerKey ?ka (req ?s))"
    by blast
  also have "\<dots> =
     \<lparr> req = \<lparr> Header = [(''X-Api-Key'', [''wrong'']), (''X-Auth-Key'', [''k1''])],
               URL = \<lparr>Path = ''/orders'', RawQuery = []\<rparr>,
               RequestURI = URL_RequestURI \<lparr>Path = ''/orders'', RawQuery = []\<rparr> \<rparr>,
       rw = [],
       served = [(0, \<lparr> Header = [(''X-Api-Key'', [''wrong'']), (''X-Auth-Key'', [''k1''])],
                        URL = \<lparr>Path = ''/orders'', RawQuery = []\<rparr>,
                        RequestURI = URL_RequestURI \<lparr>Path = ''/orders'', RawQuery = []\<rparr> \<rparr>)] \<rparr>"
    by code_simp
  finally show ?thesis using h b by blast
qed

subsection \<open>The query string on a match of the query parameter\<close>

text \<open>
  C4, as the code has it. When the query-parameter method is the first to match,
  the request is forwarded with a query string that is the encoding
  (\<^verbatim>\<open>Values.Encode\<close>) of the parsed parameters, whether \<^verbatim>\<open>removeQueryParamsOnSuccess\<close>
  is set or not; the named parameter is deleted from the parsed parameters before
  the encoding only when the flag is set. So the parameters of the forwarded
  query string are those of the original one, each with its values, except that
  the named parameter has no value when the flag is set; when the flag is not set
  no parameter is deleted. The path is not changed.
\<close>

theorem ServeHTTP_query_reencoded:
  assumes "\<not> headerMatches ka (req s)" and "\<not> bearerMatches ka (req s)"
    and "queryMatches ka (req s)"
  shows "served (ServeHTTP ka s) = served s @ [(next_handler ka, req (ServeHTTP ka s))] \<and>
    RawQuery (URL (req (ServeHTTP ka s))) =
      Values_Encode
        (if removeQueryParamsOnSuccess ka
         then Values_Del (Query (RawQuery (URL (req s)))) (queryParamName ka)
         else Query (RawQuery (URL (req s)))) \<and>
    Path (URL (req (ServeHTTP ka s))) = Path (URL (req s)) \<and>
    index (Query (RawQuery (URL (req (ServeHTTP ka s))))) k =
      (if removeQueryParamsOnSuccess ka \<and> k = queryParamName ka then []
       else index (Query (RawQuery (URL (req s)))) k)"
  using assms
  by (simp add: ServeHTTP_def check_eqs ok_served ok_URL Values_Del_def index_delete
      Query_Values_Encode)

theorem ServeHTTP_query_reencoded_witness:
  "\<not> headerMatches (exampleKeyAuth\<lparr>removeQueryParamsOnSuccess := False\<rparr>)
       (req (exampleState [] ''/orders'' ''token=k1&a=1'')) \<and>
   \<not> bearerMatches (exampleKeyAuth\<lparr>removeQueryParamsOnSuccess := False\<rparr>)
       (req (exampleState [] ''/orders'' ''token=k1&a=1'')) \<and>
   queryMatches (exampleKeyAuth\<lparr>removeQueryParamsOnSuccess := False\<rparr>)
       (req (exampleState [] ''/orders'' ''token=k1&a=1'')) \<and>
   RawQuery (URL (req (ServeHTTP (exampleKeyAuth\<lparr>removeQueryParamsOnSuccess := False\<rparr>)
       (exampleState [] ''/orders'' ''token=k1&a=1'')))) = ''a=1&token=k1'' \<and>
   \<not> headerMatches exampleKeyAuth (req (exampleState [] ''/orders'' ''token=k1&a=1'')) \<and>
   \<not> bearerMatches exampleKeyAuth (req (exampleState [] ''/orders'' ''token=k1&a=1'')) \<and>
   queryMatches exampleKeyAuth (req (exampleState [] ''/orders'' ''token=k1&a=1'')) \<and>
   RawQuery (URL (req (ServeHTTP exampleKeyAuth (exampleState [] ''/orders'' ''token=k1&a=1'')))) =
     ''a=1''"
proof -
  let ?ka = "exampleKeyAuth\<lparr>removeQueryParamsOnSuccess := False\<rparr>"
  let ?s = "exampleState [] ''/orders'' ''token=k1&a=1''"
  have h: "\<not> headerMatches ?ka (req ?s)" by code_simp
  have b: "\<not> bearerMatches ?ka (req ?s)" by code_simp
  have q: "queryMatches ?ka (req ?s)" by code_simp
  have "RawQuery (URL (req (ServeHTTP ?ka ?s))) =
      Values_Encode
        (if removeQueryParamsOnSuccess ?ka
         then Values_Del (Query (RawQuery (URL (req ?s)))) (queryParamName ?ka)
         else Query (RawQuery (URL (req ?s))))"
    using ServeHTTP_query_reencoded [OF h b q] by blast
  also have "\<dots> = ''a=1&token=k1''" by code_simp
  finally have r: "RawQuery (URL (req (ServeHTTP ?ka ?s))) = ''a=1&token=k1''" .
  have h': "\<not> headerMatches exampleKeyAuth (req ?s)" by code_simp
  have b': "\<not> bearerMatches exampleKeyAuth (req ?s)" by code_simp
  have q': "queryMatches exampleKeyAuth (req ?s)" by code_simp
  have "RawQuery (URL (req (ServeHTTP exampleKeyAuth ?s))) =
      Values_Encode
        (if removeQueryParamsOnSuccess exampleKeyAuth
         then Values_Del (Query (RawQuery (URL (req ?s)))) (queryParamName exampleKeyAuth)
         else Query (RawQuery (URL (req ?s))))"
    using ServeHTTP_query_reencoded [OF h' b' q'] by blast
  also have "\<dots> = ''a=1''" by code_simp
  finally have r': "RawQuery (URL (req (ServeHTTP exampleKeyAuth ?s))) = ''a=1''" .
  from h b q r h' b' q' r' show ?thesis by blast
qed

text \<open>
  C4 as stated fails: with the flag not set and the query string \<^verbatim>\<open>token=k1&a=1\<close>,
  matched by the query-parameter method, the request is forwarded with the query
  string \<^verbatim>\<open>a=1&token=k1\<close>.
\<close>

theorem ServeHTTP_query_unchanged_counterexample:
  "\<not> removeQueryParamsOnSuccess (exampleKeyAuth\<lparr>removeQueryParamsOnSuccess := False\<rparr>) \<and>
   \<not> headerMatches (exampleKeyAuth\<lparr>removeQueryParamsOnSuccess := False\<rparr>)
       (req (exampleState [] ''/orders'' ''token=k1&a=1'')) \<and>
   \<not> bearerMatches (exampleKeyAuth\<lparr>removeQueryParamsOnSuccess := False\<rparr>)
       (req (exampleState [] ''/orders'' ''token=k1&a=1'')) \<and>
   queryMatches (exampleKeyAuth\<lparr>removeQueryParamsOnSuccess := False\<rparr>)
       (req (exampleState [] ''/orders'' ''token=k1&a=1'')) \<and>
   RawQuery (URL (snd (hd (served (ServeHTTP (exampleKeyAuth\<lparr>removeQueryParamsOnSuccess := False\<rparr>)
       (exampleState [] ''/orders'' ''token=k1&a=1'')))))) \<noteq> ''token=k1&a=1''"
  by code_simp

subsection \<open>Rejection\<close>

text \<open>
  C6, as the code has it. When no enabled method matches and \<^verbatim>\<open>internalErrorRoute\<close>
  is empty, the handler sets the header \<^verbatim>\<open>Content-Type: application/json; charset=utf-8\<close>
  on the response writer, writes the status 403 and writes the body
  \<^verbatim>\<open>{"message":"Invalid or missing API Key","status_code":403}\<close> followed by a
  newline character, as \<^verbatim>\<open>Encoder.Encode\<close> ends every value with a newline; the
  request is not changed and the downstream handler is not called.
\<close>

theorem ServeHTTP_rejection_response:
  assumes "noMatch ka (req s)" and "internalErrorRoute ka = []"
  shows "ServeHTTP ka s =
      s\<lparr>rw := rw s @
          [Header_Set ''Content-Type'' ''application/json; charset=utf-8'',
           WriteHeader 403,
           Write (spec_rejection_body @ [CHR 0x0A])]\<rparr> \<and>
    served (ServeHTTP ka s) = served s \<and> req (ServeHTTP ka s) = req s"
  using assms
  by (simp add: ServeHTTP_noMatch reject_def Encode_rejection [unfolded StatusForbidden_def]
      Let_def StatusForbidden_def)

theorem ServeHTTP_rejection_response_witness:
  "noMatch exampleKeyAuth (req (exampleState [(''X-Api-Key'', [''wrong''])] ''/orders'' ''token=no'')) \<and>
   internalErrorRoute exampleKeyAuth = [] \<and>
   ServeHTTP exampleKeyAuth (exampleState [(''X-Api-Key'', [''wrong''])] ''/orders'' ''token=no'') =
     (exampleState [(''X-Api-Key'', [''wrong''])] ''/orders'' ''token=no'')
       \<lparr>rw := [Header_Set ''Content-Type'' ''application/json; charset=utf-8'',
               WriteHeader 403,
               Write (spec_rejection_body @ [CHR 0x0A])]\<rparr> \<and>
   served (ServeHTTP exampleKeyAuth
     (exampleState [(''X-Api-Key'', [''wrong''])] ''/orders'' ''token=no'')) = []"
proof -
  let ?s = "exampleState [(''X-Api-Key'', [''wrong''])] ''/orders'' ''token=no''"
  have n: "noMatch exampleKeyAuth (req ?s)" by code_simp
  have e: "internalErrorRoute exampleKeyAuth = []" by (simp add: exampleKeyAuth_def)
  have r: "rw ?s = []" and d: "served ?s = []" by (simp_all add: exampleState_def)
  from ServeHTTP_rejection_response [OF n e] r d n e show ?thesis by simp
qed

text \<open>
  C6 as stated fails: the body written is not exactly the JSON text, it has a
  newline character after it.
\<close>

theorem ServeHTTP_rejection_body_counterexample:
  "noMatch exampleKeyAuth (req (exampleState [] ''/orders'' [])) \<and>
   internalErrorRoute exampleKeyAuth = [] \<and>
   last (rw (ServeHTTP exampleKeyAuth (exampleState [] ''/orders'' []))) \<noteq>
     Write spec_rejection_body"
  by code_simp

text \<open>
  C7. When no enabled method matches and \<^verbatim>\<open>internalErrorRoute\<close> is not empty, the path
  of the request becomes \<^verbatim>\<open>internalErrorRoute\<close> and its query string becomes empty;
  nothing else changes: no call is made on the response writer and the downstream
  handler is not called.
\<close>

theorem ServeHTTP_error_route:
  assumes "noMatch ka (req s)" and "internalErrorRoute ka \<noteq> []"
  shows "ServeHTTP ka s =
      s\<lparr>req := (req s)\<lparr>URL := (URL (req s))\<lparr>Path := internalErrorRoute ka, RawQuery := []\<rparr>\<rparr>\<rparr> \<and>
    Path (URL (req (ServeHTTP ka s))) = internalErrorRoute ka \<and>
    RawQuery (URL (req (ServeHTTP ka s))) = [] \<and>
    rw (ServeHTTP ka s) = rw s \<and>
    served (ServeHTTP ka s) = served s"
  using assms by (simp add: ServeHTTP_noMatch reject_def)

theorem ServeHTTP_error_route_witness:
  "noMatch (exampleKeyAuth\<lparr>internalErrorRoute := ''/denied''\<rparr>)
     (req (exampleState [(''Authorization'', [''Bearer nope''])] ''/orders'' ''a=1&token=no'')) \<and>
   internalErrorRoute (exampleKeyAuth\<lparr>internalErrorRoute := ''/denied''\<rparr>) \<noteq> [] \<and>
   ServeHTTP (exampleKeyAuth\<lparr>internalErrorRoute := ''/denied''\<rparr>)
     (exampleState [(''Authorization'', [''Bearer nope''])] ''/orders'' ''a=1&token=no'') =
     exampleState [(''Authorization'', [''Bearer nope''])] ''/denied'' []"
proof -
  let ?ka = "exampleKeyAuth\<lparr>internalErrorRoute := ''/denied''\<rparr>"
  let ?s = "exampleState [(''Authorization'', [''Bearer nope''])] ''/orders'' ''a=1&token=no''"
  have n: "noMatch ?ka (req ?s)" by code_simp
  have e: "internalErrorRoute ?ka \<noteq> []" by simp
  from ServeHTTP_error_route [OF n e]
  have "ServeHTTP ?ka ?s =
      ?s\<lparr>req := (req ?s)\<lparr>URL := (URL (req ?s))\<lparr>Path := internalErrorRoute ?ka, RawQuery := []\<rparr>\<rparr>\<rparr>"
    by blast
  also have "\<dots> = exampleState [(''Authorization'', [''Bearer nope''])] ''/denied'' []"
    by (simp add: exampleState_def exampleRequest_def)
  finally show ?thesis using n e by blast
qed

subsection \<open>The forwarding header\<close>

text \<open>
  C9. Whenever some enabled method matches, the matched value \<open>v\<close> is a non-empty
  entry of the allow-list (under the path policy an entry that occurs in the path,
  not the path), and the downstream handler is called once with the request. If
  \<^verbatim>\<open>internalForwardHeaderName\<close> is not empty, the headers of that request are the
  headers left by the deletions of the method with \<open>v\<close> added under that name
  (\<^verbatim>\<open>Header.Add\<close>: \<open>v\<close> is the last value of that name); if it is empty, they are
  the headers left by the deletions.
\<close>

theorem ServeHTTP_forward_header:
  assumes "\<not> noMatch ka (req s)"
  shows "firstMatch ka (req s) \<in> set (keys ka) \<and> firstMatch ka (req s) \<noteq> [] \<and>
    served (ServeHTTP ka s) = served s @ [(next_handler ka, req (ServeHTTP ka s))] \<and>
    (internalForwardHeaderName ka \<noteq> [] \<longrightarrow>
       Header (req (ServeHTTP ka s)) =
         Header_Add (headersAfterMatch ka (req s)) (internalForwardHeaderName ka)
           (firstMatch ka (req s)) \<and>
       index (Header (req (ServeHTTP ka s))) (CanonicalMIMEHeaderKey (internalForwardHeaderName ka)) =
         index (headersAfterMatch ka (req s)) (CanonicalMIMEHeaderKey (internalForwardHeaderName ka)) @
         [firstMatch ka (req s)]) \<and>
    (internalForwardHeaderName ka = [] \<longrightarrow>
       Header (req (ServeHTTP ka s)) = headersAfterMatch ka (req s)) \<and>
    (\<not> headerMatches ka (req s) \<and> \<not> bearerMatches ka (req s) \<and> \<not> queryMatches ka (req s) \<longrightarrow>
       firstMatch ka (req s) = pathKey ka (req s) \<and> sublist (firstMatch ka (req s)) (Path (URL (req s))))"
proof -
  from assms obtain s' where eq: "ServeHTTP ka s = ok ka s' (firstMatch ka (req s))"
    and h: "Header (req s') = headersAfterMatch ka (req s)" and d: "served s' = served s"
    using ServeHTTP_match by blast
  have 1: "firstMatch ka (req s) \<in> set (keys ka) \<and> firstMatch ka (req s) \<noteq> []"
    using assms by (rule firstMatch_mem)
  have 2: "served (ServeHTTP ka s) = served s @ [(next_handler ka, req (ServeHTTP ka s))]"
    by (simp add: eq ok_served d)
  have 3: "internalForwardHeaderName ka \<noteq> [] \<longrightarrow>
       Header (req (ServeHTTP ka s)) =
         Header_Add (headersAfterMatch ka (req s)) (internalForwardHeaderName ka)
           (firstMatch ka (req s)) \<and>
       index (Header (req (ServeHTTP ka s))) (CanonicalMIMEHeaderKey (internalForwardHeaderName ka)) =
         index (headersAfterMatch ka (req s)) (CanonicalMIMEHeaderKey (internalForwardHeaderName ka)) @
         [firstMatch ka (req s)]"
    by (simp add: eq ok_Header h index_Header_Add)
  have 4: "internalForwardHeaderName ka = [] \<longrightarrow>
       Header (req (ServeHTTP ka s)) = headersAfterMatch ka (req s)"
    by (simp add: eq ok_Header h)
  have 5: "\<not> headerMatches ka (req s) \<and> \<not> bearerMatches ka (req s) \<and> \<not> queryMatches ka (req s) \<longrightarrow>
       firstMatch ka (req s) = pathKey ka (req s) \<and> sublist (firstMatch ka (req s)) (Path (URL (req s)))"
    using assms
    by (auto simp: noMatch_def firstMatch_def pathMatches_def pathKey_def sublist_strings_Contains
        intro: contains_substr_sound)
  from 1 2 3 4 5 show ?thesis by blast
qed

theorem ServeHTTP_forward_header_witness:
  "\<not> noMatch (exampleKeyAuth\<lparr>internalForwardHeaderName := ''X-Auth-Key''\<rparr>)
       (req (exampleState [(''Accept'', [''*/*''])] ''/v1/abcdef/orders'' [])) \<and>
   internalForwardHeaderName (exampleKeyAuth\<lparr>internalForwardHeaderName := ''X-Auth-Key''\<rparr>) \<noteq> [] \<and>
   firstMatch (exampleKeyAuth\<lparr>internalForwardHeaderName := ''X-Auth-Key''\<rparr>)
       (req (exampleState [(''Accept'', [''*/*''])] ''/v1/abcdef/orders'' [])) = ''abc'' \<and>
   Header (req (ServeHTTP (exampleKeyAuth\<lparr>internalForwardHeaderName := ''X-Auth-Key''\<rparr>)
       (exampleState [(''Accept'', [''*/*''])] ''/v1/abcdef/orders'' []))) =
     [(''Accept'', [''*/*'']), (''X-Auth-Key'', [''abc''])] \<and>
   served (ServeHTTP (exampleKeyAuth\<lparr>internalForwardHeaderName := ''X-Auth-Key''\<rparr>)
       (exampleState [(''Accept'', [''*/*''])] ''/v1/abcdef/orders'' [])) =
     [(0, req (ServeHTTP (exampleKeyAuth\<lparr>internalForwardHeaderName := ''X-Auth-Key''\<rparr>)
       (exampleState [(''Accept'', [''*/*''])] ''/v1/abcdef/orders'' [])))]"
proof -
  let ?ka = "exampleKeyAuth\<lparr>internalForwardHeaderName := ''X-Auth-Key''\<rparr>"
  let ?s = "exampleState [(''Accept'', [''*/*''])] ''/v1/abcdef/orders'' []"
  have m: "\<not> noMatch ?ka (req ?s)" by code_simp
  have f: "internalForwardHeaderName ?ka \<noteq> []" by simp
  have k: "firstMatch ?ka (req ?s) = ''abc''" by code_simp
  have d: "served ?s = []" and n: "next_handler ?ka = 0"
    by (simp_all add: exampleState_def exampleKeyAuth_def)
  from ServeHTTP_forward_header [OF m] f
  have h0: "Header (req (ServeHTTP ?ka ?s)) =
        Header_Add (headersAfterMatch ?ka (req ?s)) (internalForwardHeaderName ?ka)
          (firstMatch ?ka (req ?s))"
    and s: "served (ServeHTTP ?ka ?s) = served ?s @ [(next_handler ?ka, req (ServeHTTP ?ka ?s))]"
    by blast+
  have "Header_Add (headersAfterMatch ?ka (req ?s)) (internalForwardHeaderName ?ka)
          (firstMatch ?ka (req ?s)) = [(''Accept'', [''*/*'']), (''X-Auth-Key'', [''abc''])]"
    by code_simp
  with h0 have h: "Header (req (ServeHTTP ?ka ?s)) =
     [(''Accept'', [''*/*'']), (''X-Auth-Key'', [''abc''])]" by simp
  from s d n have s': "served (ServeHTTP ?ka ?s) = [(0, req (ServeHTTP ?ka ?s))]" by simp
  from m f k h s' show ?thesis by blast
qed

subsection \<open>The empty allow-list entry\<close>

text \<open>
  C10. If no entry of the allow-list other than the empty string is presented by
  the request under an enabled method, the request is rejected and the downstream
  handler is not called. An absent header or query parameter, read as the empty
  string, matches no allow-list under the exact policy, also one that holds the
  empty string; and the empty string occurs in every path, but a path in which no
  non-empty entry occurs matches no allow-list under the substring policy.
\<close>

theorem empty_entry_never_authenticates:
  "((\<forall>k\<in>set (keys ka). k \<noteq> [] \<longrightarrow> \<not> presented ka (req s) k) \<longrightarrow>
      ServeHTTP ka s = reject ka s \<and> served (ServeHTTP ka s) = served s) \<and>
   contains [] L True = [] \<and>
   strings_Contains p [] \<and>
   ((\<forall>a\<in>set L. a \<noteq> [] \<longrightarrow> \<not> sublist a p) \<longrightarrow> contains p L False = [])"
proof (intro conjI impI)
  assume a: "\<forall>k\<in>set (keys ka). k \<noteq> [] \<longrightarrow> \<not> presented ka (req s) k"
  then have "noMatch ka (req s)" by (rule noMatch_if_only_empty)
  then show "ServeHTTP ka s = reject ka s" by (rule ServeHTTP_noMatch)
  then show "served (ServeHTTP ka s) = served s" by (simp add: reject_def Let_def)
next
  show "contains [] L True = []" by (simp add: contains_exact)
next
  show "strings_Contains p []" by (cases p) simp_all
next
  assume a: "\<forall>a\<in>set L. a \<noteq> [] \<longrightarrow> \<not> sublist a p"
  show "contains p L False = []"
  proof (rule ccontr)
    assume ne: "contains p L False \<noteq> []"
    then have "contains p L False \<in> set L" and "sublist (contains p L False) p"
      by (simp_all add: contains_mem contains_substr_sound sublist_strings_Contains)
    with a ne show False by blast
  qed
qed

theorem empty_entry_never_authenticates_witness:
  "keys (exampleKeyAuth\<lparr>keys := ['''']\<rparr>) = [''''] \<and>
   presented (exampleKeyAuth\<lparr>keys := ['''']\<rparr>) (req (exampleState [] ''/orders'' [])) [] \<and>
   served (ServeHTTP (exampleKeyAuth\<lparr>keys := ['''']\<rparr>) (exampleState [] ''/orders'' [])) = [] \<and>
   \<not> sublist ''k1'' ''/orders'' \<and>
   contains ''/orders'' ['''', ''k1''] False = []"
proof -
  let ?ka = "exampleKeyAuth\<lparr>keys := ['''']\<rparr>"
  let ?s = "exampleState [] ''/orders'' []"
  have a: "\<forall>k\<in>set (keys ?ka). k \<noteq> [] \<longrightarrow> \<not> presented ?ka (req ?s) k" by simp
  have p: "presented ?ka (req ?s) []" by code_simp
  have d: "served ?s = []" by (simp add: exampleState_def)
  from empty_entry_never_authenticates [of ?ka ?s] a
  have "served (ServeHTTP ?ka ?s) = served ?s" by blast
  with d have r: "served (ServeHTTP ?ka ?s) = []" by simp
  have b: "\<forall>a\<in>set ['''', ''k1'']. a \<noteq> [] \<longrightarrow> \<not> sublist a ''/orders''"
    by (simp add: sublist_strings_Contains)
  from empty_entry_never_authenticates [of ?ka ?s "['''', ''k1'']" "''/orders''"] b
  have c: "contains ''/orders'' ['''', ''k1''] False = []" by blast
  have n: "\<not> sublist ''k1'' ''/orders''" by (simp add: sublist_strings_Contains)
  have k: "keys ?ka = ['''']" by simp
  from k p r n c show ?thesis by blast
qed

end
